theory Spec2Isabelle
  imports
    Main
    "HOL-Library.Char_ord"
    "HOL-Library.List_Lexorder"
    "HOL-Library.Product_Lexorder"
begin

section \<open>TreeDrawer: a directory tree renderer\<close>

text \<open>
  A shallow embedding of \<^verbatim>\<open>src/main.py\<close> (class \<^verbatim>\<open>TreeDrawer\<close>).

  Conventions of the embedding.
  \<^item> A Python \<^verbatim>\<open>str\<close> is a \<open>string\<close>. The three box-drawing glyphs of the source are
    written by their UTF-8 bytes; byte-wise lexicographic order of UTF-8 text agrees with
    the code-point order Python compares names by.
  \<^item> The file system is a finite tree of nodes. Every node carries the result of
    \<^verbatim>\<open>stat()\<close> (modification time in seconds, byte size); a directory carries its
    listing, in the arbitrary order \<^verbatim>\<open>iterdir()\<close> yields it. A node that is neither a
    regular file nor a directory (a socket, a FIFO) is \<open>Other\<close>: for it both
    \<^verbatim>\<open>is_dir()\<close> and \<^verbatim>\<open>is_file()\<close> are false. Symbolic links and entries that cannot be
    read are outside the model.
  \<^item> What the standard library computes from the platform (glob matching, the local-time
    rendering of a timestamp, the text of a path) is a parameter, the record \<open>platform\<close>.
  \<^item> Printing and writing a file are explicit updates of a \<open>world\<close>; a raised
    exception is a value \<open>Inl e\<close>.
\<close>

subsection \<open>Strings\<close>

definition startswith :: "string \<Rightarrow> string \<Rightarrow> bool" where
  \<comment> \<open>\<^verbatim>\<open>s.startswith(p)\<close>\<close>
  "startswith s p = (take (length p) s = p)"

fun join :: "string \<Rightarrow> string list \<Rightarrow> string" where
  \<comment> \<open>\<^verbatim>\<open>sep.join(xs)\<close>\<close>
  "join sep [] = []"
| "join sep [x] = x"
| "join sep (x # y # ys) = x @ sep @ join sep (y # ys)"

function replace_from :: "string \<Rightarrow> string \<Rightarrow> string \<Rightarrow> string" where
  \<comment> \<open>the left-to-right scan of \<^verbatim>\<open>str.replace\<close> for a non-empty \<open>old\<close>: occurrences are
      found from the left and do not overlap\<close>
  "replace_from old new s =
     (if s = [] then []
      else if old \<noteq> [] \<and> startswith s old then new @ replace_from old new (drop (length old) s)
      else hd s # replace_from old new (tl s))"
  by pat_completeness auto
termination
  by (relation "measure (\<lambda>(old, new, s). length s)") auto

declare replace_from.simps [simp del]

definition replace :: "string \<Rightarrow> string \<Rightarrow> string \<Rightarrow> string" where
  \<comment> \<open>\<^verbatim>\<open>s.replace(old, new)\<close>; for an empty \<open>old\<close> Python puts \<open>new\<close> before every
      character and at the end\<close>
  "replace s old new =
     (if old = [] then new @ concat (map (\<lambda>c. c # new) s) else replace_from old new s)"

definition digit_char :: "nat \<Rightarrow> char" where
  \<comment> \<open>the decimal digit \<open>d\<close>, for \<open>d < 10\<close>\<close>
  "digit_char d = ''0123456789'' ! d"

fun str_nat :: "nat \<Rightarrow> string" where
  \<comment> \<open>the decimal numeral of a natural number\<close>
  "str_nat n = (if n < 10 then [digit_char n] else str_nat (n div 10) @ [digit_char (n mod 10)])"

declare str_nat.simps [simp del]

definition str_int :: "int \<Rightarrow> string" where
  \<comment> \<open>\<^verbatim>\<open>f'{size}'\<close> for a Python \<^verbatim>\<open>int\<close>\<close>
  "str_int i = (if i < 0 then CHR ''-'' # str_nat (nat (- i)) else str_nat (nat i))"

subsection \<open>Floating point, as far as \<^verbatim>\<open>_get_size\<close> needs it\<close>

text \<open>
  \<^verbatim>\<open>size / 1024\<close> is Python's true division of two \<^verbatim>\<open>int\<close>s: the IEEE double nearest to
  the exact quotient, ties to the even mantissa. The divisors of the source are powers of
  two, so the quotient is the double nearest to \<open>size\<close>, scaled: a double is written here as
  a pair of naturals, numerator and power-of-two denominator. The exponent range of a
  double is not modelled: for a quotient beyond it (sizes far above \<open>2 ^ 1024\<close> bytes)
  Python raises \<^verbatim>\<open>OverflowError\<close>, and the properties below stop at \<open>2 ^ 1024\<close>.

  \<^verbatim>\<open>f'{x:.1f}'\<close> prints the multiple of one tenth nearest to the exact value of the double
  \<open>x\<close>, a tie going to the even last digit.
\<close>

definition round_half_even :: "nat \<Rightarrow> nat \<Rightarrow> nat" where
  \<comment> \<open>the integer nearest to \<open>a / b\<close>, a tie going to the even one\<close>
  "round_half_even a b =
     (let q = a div b; r = a mod b
      in if b < 2 * r \<or> (2 * r = b \<and> odd q) then q + 1 else q)"

fun bit_length :: "nat \<Rightarrow> nat" where
  \<comment> \<open>\<^verbatim>\<open>int.bit_length()\<close>\<close>
  "bit_length n = (if n = 0 then 0 else Suc (bit_length (n div 2)))"

declare bit_length.simps [simp del]

definition double_of_nat :: "nat \<Rightarrow> nat" where
  \<comment> \<open>the double nearest to \<open>n\<close> (53 significant bits); it is an integer\<close>
  "double_of_nat n =
     (let e = bit_length n - 53 in round_half_even n (2 ^ e) * 2 ^ e)"

definition format_1f :: "nat \<Rightarrow> nat \<Rightarrow> string" where
  \<comment> \<open>\<^verbatim>\<open>f'{x:.1f}'\<close> for the double \<open>x = a / b\<close>\<close>
  "format_1f a b =
     (let t = round_half_even (10 * a) b
      in str_nat (t div 10) @ ''.'' @ str_nat (t mod 10))"

definition get_size :: "int \<Rightarrow> string" where
  "get_size sz =
     (if sz < 1024 then ''('' @ str_int sz @ '' B)''
      else if sz < 1024 * 1024 then ''('' @ format_1f (double_of_nat (nat sz)) 1024 @ '' KB)''
      else ''('' @ format_1f (double_of_nat (nat sz)) (1024 * 1024) @ '' MB)'')"

text \<open>
  The words of the specification, "to one decimal place": \<open>t\<close> tenths is a multiple of one
  tenth nearest to the fraction \<open>a / b\<close>, that is, at most one twentieth away from it.
\<close>

definition nearest_tenths :: "nat \<Rightarrow> nat \<Rightarrow> nat \<Rightarrow> bool" where
  "nearest_tenths t a b = (2 * \<bar>int b * int t - 10 * int a\<bar> \<le> int b)"

subsection \<open>The platform, the file system and the renderer's configuration\<close>

datatype path = Path (anchor: string) (parts: "string list")

definition path_name :: "path \<Rightarrow> string" where
  \<comment> \<open>\<^verbatim>\<open>PurePath.name\<close>: the final component, empty when there is none\<close>
  "path_name p = (if parts p = [] then [] else last (parts p))"

definition joinpath :: "path \<Rightarrow> string \<Rightarrow> path" where
  \<comment> \<open>\<^verbatim>\<open>p / c\<close> for a single relative component \<open>c\<close>\<close>
  "joinpath p c = Path (anchor p) (parts p @ [c])"

record platform =
  fnmatch :: "string \<Rightarrow> string \<Rightarrow> bool"  \<comment> \<open>\<^verbatim>\<open>fnmatch.fnmatch(name, pattern)\<close>\<close>
  strftime :: "int \<Rightarrow> string"  \<comment> \<open>\<^verbatim>\<open>datetime.fromtimestamp(t).strftime('%Y-%m-%d %H:%M')\<close>\<close>
  path_str :: "path \<Rightarrow> string"  \<comment> \<open>\<^verbatim>\<open>str(p)\<close> of a path\<close>

datatype node =
    File (name: string) (st_mtime: int) (st_size: int)
  | Dir (name: string) (st_mtime: int) (st_size: int) (listing: "node list")
  | Other (name: string) (st_mtime: int) (st_size: int)

fun is_dir :: "node \<Rightarrow> bool" where
  "is_dir (Dir _ _ _ _) = True"
| "is_dir _ = False"

fun is_file :: "node \<Rightarrow> bool" where
  "is_file (File _ _ _) = True"
| "is_file _ = False"

record drawer =
  path :: path
  show_files :: bool
  ignored_patterns :: "string set"
  show_modified_time :: bool
  show_size :: bool
  show_hidden :: bool

definition init :: "path \<Rightarrow> string list \<Rightarrow> bool \<Rightarrow> bool \<Rightarrow> bool \<Rightarrow> bool \<Rightarrow> drawer" where
  \<comment> \<open>\<^verbatim>\<open>__init__\<close>; the call of \<^verbatim>\<open>colorama.init\<close> has no effect on the values computed here\<close>
  "init p ignored sf smt ss sh =
     \<lparr>path = p, show_files = sf, ignored_patterns = set ignored,
      show_modified_time = smt, show_size = ss, show_hidden = sh\<rparr>"

datatype error = ValueError string | OSError

record world =
  lookup :: "path \<Rightarrow> node option"  \<comment> \<open>what a path refers to, if anything\<close>
  can_open :: "path \<Rightarrow> bool"  \<comment> \<open>whether \<^verbatim>\<open>open(p, 'w')\<close> succeeds\<close>
  files :: "path \<Rightarrow> string option"  \<comment> \<open>the text written to each file\<close>
  stdout :: "string list"  \<comment> \<open>the arguments of the calls of \<^verbatim>\<open>print\<close>, in order\<close>

subsection \<open>Colours and glyphs\<close>

definition ESC :: char where "ESC = CHR 0x1B"

definition BLUE :: string where "BLUE = ESC # ''[34m''"        \<comment> \<open>\<^verbatim>\<open>colorama.Fore.BLUE\<close>\<close>
definition GREEN :: string where "GREEN = ESC # ''[32m''"      \<comment> \<open>\<^verbatim>\<open>colorama.Fore.GREEN\<close>\<close>
definition WHITE :: string where "WHITE = ESC # ''[37m''"      \<comment> \<open>\<^verbatim>\<open>colorama.Fore.WHITE\<close>\<close>

definition FORK_STRING :: string where
  "FORK_STRING = WHITE @ [CHR 0xE2, CHR 0x94, CHR 0x9C, CHR 0xE2, CHR 0x94, CHR 0x80, CHR 0xE2, CHR 0x94, CHR 0x80]"

definition CORNER_STRING :: string where
  "CORNER_STRING = WHITE @ [CHR 0xE2, CHR 0x94, CHR 0x94, CHR 0xE2, CHR 0x94, CHR 0x80, CHR 0xE2, CHR 0x94, CHR 0x80]"

definition WALL_STRING :: string where
  "WALL_STRING = WHITE @ [CHR 0xE2, CHR 0x94, CHR 0x82, CHR '' '', CHR '' '']"

definition SPACE_STRING :: string where
  "SPACE_STRING = ''   ''"

subsection \<open>The methods of \<^verbatim>\<open>TreeDrawer\<close>\<close>

definition is_ignored :: "platform \<Rightarrow> drawer \<Rightarrow> string \<Rightarrow> bool" where
  "is_ignored pf self nm = (\<exists>pattern \<in> ignored_patterns self. fnmatch pf nm pattern)"

definition is_hidden :: "string \<Rightarrow> bool" where
  "is_hidden nm = startswith nm ''.''"

fun rglob :: "node \<Rightarrow> node list" where
  \<comment> \<open>\<^verbatim>\<open>path.rglob('*')\<close>: everything beneath a directory; nothing for another node\<close>
  "rglob (Dir _ _ _ entries) = concat (map (\<lambda>e. e # rglob e) entries)"
| "rglob _ = []"

definition get_directory_size :: "node \<Rightarrow> string" where
  "get_directory_size p =
     (let total_size = sum_list (map st_size (filter is_file (rglob p)))
      in get_size total_size)"

definition filter_entries :: "platform \<Rightarrow> drawer \<Rightarrow> node list \<Rightarrow> node list" where
  \<comment> \<open>lines 122 to 130 of \<^verbatim>\<open>_tree_structure\<close>: the three filters, then the stable sort\<close>
  "filter_entries pf self iterdir =
     (let entries = filter (\<lambda>e. \<not> is_ignored pf self (name e)) iterdir;
          entries = (if \<not> show_files self then filter is_dir entries else entries);
          entries = (if \<not> show_hidden self then filter (\<lambda>e. \<not> is_hidden (name e)) entries
                     else entries)
      in sort_key (\<lambda>x. (is_file x, name x)) entries)"

definition entry_line :: "platform \<Rightarrow> drawer \<Rightarrow> string \<Rightarrow> string \<Rightarrow> node \<Rightarrow> string" where
  \<comment> \<open>lines 135 to 154: the line of one entry\<close>
  "entry_line pf self prefix connector entry =
     (if is_dir entry then
        (let modified_time = (if show_modified_time self then strftime pf (st_mtime entry) else []);
             sz = (if show_size self then get_directory_size entry else []);
             line = prefix @ connector @ '' '' @ BLUE @ name entry @ ''/'';
             line = (if modified_time \<noteq> [] \<or> sz \<noteq> [] then
                       (let line = (if modified_time \<noteq> []
                                    then line @ '' '' @ WHITE @ ''[Modified: '' @ modified_time @ '']''
                                    else line)
                        in if sz \<noteq> [] then line @ '' '' @ WHITE @ ''[Size: '' @ sz @ '']''
                           else line)
                     else line)
         in line)
      else
        (let line = prefix @ connector @ '' '' @ GREEN @ name entry;
             line = (if show_modified_time self
                     then line @ '' '' @ WHITE @ ''[Modified: '' @ strftime pf (st_mtime entry) @ '']''
                     else line);
             line = (if show_size self \<and> is_file entry
                     then line @ '' '' @ WHITE @ ''[Size: '' @ get_size (st_size entry) @ '']''
                     else line)
         in line))"

text \<open>
  \<^verbatim>\<open>_tree_structure(path, prefix)\<close>. The directory \<open>path\<close> is given by what
  \<^verbatim>\<open>path.iterdir()\<close> yields for it; the method is only ever called on directories.
\<close>

function tree_structure :: "platform \<Rightarrow> drawer \<Rightarrow> node list \<Rightarrow> string \<Rightarrow> string list" where
  "tree_structure pf self iterdir prefix =
     (let entries = filter_entries pf self iterdir
      in concat (map (\<lambda>(i, entry).
           (let connector = (if i = length entries - 1 then CORNER_STRING else FORK_STRING)
            in entry_line pf self prefix connector entry #
               (case entry of
                  Dir _ _ _ sub \<Rightarrow>
                    tree_structure pf self sub
                      (prefix @ (if i = length entries - 1 then SPACE_STRING else WALL_STRING))
                | _ \<Rightarrow> [])))
         (enumerate 0 entries)))"
  by pat_completeness auto

termination
proof (relation "measure (\<lambda>(pf, self, iterdir, prefix). size_list size iterdir)", goal_cases)
  case 1
  show ?case by simp
next
  case (2 pf self iterdir prefix entries p i entry connector nm mt sz sub)
  have "snd p \<in> set (map snd (enumerate 0 entries))"
    using 2(2) by (simp only: set_map) (rule imageI)
  then have "entry \<in> set entries"
    using 2(3) by (simp del: set_map) (metis snd_conv)
  moreover have "set entries \<subseteq> set iterdir"
    unfolding 2(1) by (auto simp: filter_entries_def Let_def)
  ultimately have "Dir nm mt sz sub \<in> set iterdir"
    using 2(5) by auto
  moreover have "size_list size sub < size (Dir nm mt sz sub)"
    by simp
  ultimately have "size_list size sub < size_list size iterdir"
    by (rule size_list_estimation)
  then show ?case by simp
qed

declare tree_structure.simps [simp del]

definition root_line :: "platform \<Rightarrow> drawer \<Rightarrow> node \<Rightarrow> string" where
  \<comment> \<open>lines 177 to 186 of \<^verbatim>\<open>draw\<close>: \<^verbatim>\<open>result[0]\<close>, for the node \<open>root\<close> that \<^verbatim>\<open>self.path\<close>
      refers to\<close>
  "root_line pf self root =
     (let root_modified_time = (if show_modified_time self then strftime pf (st_mtime root) else []);
          root_size = (if show_size self then get_directory_size root else []);
          line = BLUE @ path_name (path self) @ ''/'';
          line = (if root_modified_time \<noteq> [] \<or> root_size \<noteq> [] then
                    (let line = (if root_modified_time \<noteq> []
                                 then line @ '' '' @ WHITE @ ''[Modified: '' @ root_modified_time @ '']''
                                 else line)
                     in if root_size \<noteq> [] then line @ '' '' @ WHITE @ ''[Size: '' @ root_size @ '']''
                        else line)
                  else line)
      in line)"

definition draw_output :: "platform \<Rightarrow> drawer \<Rightarrow> node \<Rightarrow> string" where
  \<comment> \<open>lines 177 to 190: the joined text \<^verbatim>\<open>output\<close>. \<open>draw\<close> computes it only after the check
      that the root is a directory, so the second case is never reached\<close>
  "draw_output pf self root =
     (case root of
        Dir _ _ _ iterdir \<Rightarrow>
          join [CHR 0x0A] (root_line pf self root # tree_structure pf self iterdir [])
      | _ \<Rightarrow> [])"

definition strip_colors :: "string \<Rightarrow> string" where
  \<comment> \<open>line 195: the three chained calls of \<^verbatim>\<open>replace\<close>\<close>
  "strip_colors output = replace (replace (replace output BLUE []) GREEN []) WHITE []"

definition finish :: "bool \<Rightarrow> string \<Rightarrow> world \<Rightarrow> (error + string) \<times> world" where
  \<comment> \<open>lines 198 to 201\<close>
  "finish as_string output w =
     (if as_string then (Inr output, w)
      else (Inr [], w\<lparr>stdout := stdout w @ [output]\<rparr>))"

definition path_is_dir :: "world \<Rightarrow> path \<Rightarrow> bool" where
  \<comment> \<open>\<^verbatim>\<open>p.is_dir()\<close>: false also when nothing is there\<close>
  "path_is_dir w p = (case lookup w p of None \<Rightarrow> False | Some n \<Rightarrow> is_dir n)"

definition draw ::
  "platform \<Rightarrow> drawer \<Rightarrow> bool \<Rightarrow> path option \<Rightarrow> world \<Rightarrow> (error + string) \<times> world" where
  "draw pf self as_string save_path w =
     (case lookup w (path self) of
        None \<Rightarrow> (Inl (ValueError ''The specified path is not a directory.''), w)
      | Some root \<Rightarrow>
          if \<not> is_dir root then (Inl (ValueError ''The specified path is not a directory.''), w)
          else
            (let output = draw_output pf self root
             in case save_path of
                  None \<Rightarrow> finish as_string output w
                | Some sp \<Rightarrow>
                    (let target = joinpath sp ''tree_structure.txt''
                     in if \<not> can_open w target then (Inl OSError, w)
                        else finish as_string output
                               (w\<lparr>files := (files w)(target \<mapsto> strip_colors output),
                                  stdout := stdout w @
                                    [''Tree structure saved to '' @ path_str pf target]\<rparr>))))"

subsection \<open>Notions used to state the properties\<close>

definition uses_connector :: "string \<Rightarrow> string \<Rightarrow> string \<Rightarrow> bool" where
  \<comment> \<open>the line is a child line at the level of \<open>prefix\<close>, drawn with this connector\<close>
  "uses_connector prefix connector line = startswith line (prefix @ connector @ '' '')"


text \<open>
  The words of the specification, "the styled output with every color marker substring
  removed, and nothing else altered": one pass over the text that drops each occurrence
  of one of the three markers and keeps every other character. Occurrences of markers
  cannot overlap, since a marker holds the escape character at its start and nowhere else.
\<close>

function remove_markers :: "string \<Rightarrow> string" where
  "remove_markers s =
     (if s = [] then []
      else if startswith s BLUE then remove_markers (drop (length BLUE) s)
      else if startswith s GREEN then remove_markers (drop (length GREEN) s)
      else if startswith s WHITE then remove_markers (drop (length WHITE) s)
      else hd s # remove_markers (tl s))"
  by pat_completeness auto
termination
  by (relation "measure length") (auto simp: BLUE_def GREEN_def WHITE_def)

declare remove_markers.simps [simp del]

text \<open>
  A text is well marked when each escape character in it starts one of the three markers.
\<close>

inductive well_marked :: "string \<Rightarrow> bool" where
  wm_Nil: "well_marked []"
| wm_char: "c \<noteq> ESC \<Longrightarrow> well_marked s \<Longrightarrow> well_marked (c # s)"
| wm_marker: "m = BLUE \<or> m = GREEN \<or> m = WHITE \<Longrightarrow> well_marked s \<Longrightarrow> well_marked (m @ s)"

text \<open>
  A bracketed annotation, as \<open>entry_line\<close> and \<open>root_line\<close> append it to a line.
\<close>

definition annotation :: "string \<Rightarrow> string \<Rightarrow> string" where
  "annotation label body = '' '' @ WHITE @ label @ body @ '']''"

subsection \<open>A concrete platform and a concrete directory, for the examples\<close>

fun glob :: "string \<Rightarrow> string \<Rightarrow> bool" where
  \<comment> \<open>shell patterns made of literal characters, \<^verbatim>\<open>*\<close> and \<^verbatim>\<open>?\<close>\<close>
  "glob [] s = (s = [])"
| "glob (p # ps) [] = (p = CHR ''*'' \<and> glob ps [])"
| "glob (p # ps) (c # cs) =
     (if p = CHR ''*'' then glob ps (c # cs) \<or> glob (p # ps) cs
      else (p = CHR ''?'' \<or> p = c) \<and> glob ps cs)"

definition posix :: platform where
  \<comment> \<open>a platform whose clock shows the epoch for every timestamp\<close>
  "posix = \<lparr>fnmatch = (\<lambda>nm pattern. glob pattern nm),
            strftime = (\<lambda>t. ''1970-01-01 00:00''),
            path_str = (\<lambda>p. anchor p @ join ''/'' (parts p))\<rparr>"

definition project :: "node list" where
  \<comment> \<open>the listing of a directory with a subdirectory \<^verbatim>\<open>a\<close> holding \<^verbatim>\<open>x.txt\<close>, the file
      \<^verbatim>\<open>root.txt\<close>, a hidden file, a compiled file and a second subdirectory\<close>
  "project =
     [File ''root.txt'' 0 100,
      Dir ''a'' 0 4096 [File ''x.txt'' 0 500],
      File ''.hid'' 0 7,
      File ''b.pyc'' 0 3,
      Dir ''src'' 0 4096 [File ''.keep'' 0 2000]]"

definition mixed :: "node list" where
  \<comment> \<open>the listing of a directory with a subdirectory \<^verbatim>\<open>zz\<close>, a FIFO \<^verbatim>\<open>m\<close> and a file
      \<^verbatim>\<open>a.txt\<close>\<close>
  "mixed = [Dir ''zz'' 0 4096 [], Other ''m'' 0 0, File ''a.txt'' 0 1]"

definition plain :: drawer where
  \<comment> \<open>\<^verbatim>\<open>TreeDrawer(Path('proj'), ignored=['*.pyc'])\<close>\<close>
  "plain = init (Path [] [''proj'']) [''*.pyc''] True False False False"



definition missing :: drawer where
  \<comment> \<open>\<^verbatim>\<open>TreeDrawer(Path('nowhere'))\<close>\<close>
  "missing = init (Path [] [''nowhere'']) [] True False False False"

definition escaped :: drawer where
  \<comment> \<open>\<^verbatim>\<open>TreeDrawer(Path('odd'))\<close>\<close>
  "escaped = init (Path [] [''odd'']) [] True False False False"

definition disk :: world where
  \<comment> \<open>a working directory holding \<^verbatim>\<open>proj\<close>, \<^verbatim>\<open>.git\<close> and \<^verbatim>\<open>odd\<close>, the last with one file
      whose name contains escape characters; every file can be opened for writing, nothing
      was written and nothing was printed\<close>
  "disk =
     \<lparr>lookup = (\<lambda>p. if p = Path [] [''proj''] then Some (Dir ''proj'' 0 4096 project)
                    else if p = Path [] [''.git''] then Some (Dir ''.git'' 0 4096 [File ''HEAD'' 0 23])
                    else if p = Path [] [''odd'']
                      then Some (Dir ''odd'' 0 4096 [File (ESC # ''[3'' @ BLUE @ ''2m'') 0 1])
                    else None),
      can_open = (\<lambda>p. True),
      files = (\<lambda>p. None),
      stdout = []\<rparr>"

section \<open>Properties\<close>

subsection \<open>The size formatter\<close>

lemma round_half_even_near:
  assumes "0 < b"
  shows "2 * \<bar>int b * int (round_half_even a b) - int a\<bar> \<le> int b"
proof -
  define q r where "q = a div b" and "r = a mod b"
  have a: "int a = int b * int q + int r"
    unfolding q_def r_def by (metis div_mult_mod_eq mult.commute of_nat_add of_nat_mult)
  have r: "int r < int b"
    unfolding r_def using assms by simp
  have rhe: "round_half_even a b = (if b < 2 * r \<or> (2 * r = b \<and> odd q) then q + 1 else q)"
    by (simp add: round_half_even_def Let_def q_def r_def)
  show ?thesis
  proof (cases "b < 2 * r \<or> (2 * r = b \<and> odd q)")
    case True
    then have "int b \<le> 2 * int r" by auto
    with True r show ?thesis
      unfolding rhe a by (simp add: algebra_simps)
  next
    case False
    then have "2 * int r \<le> int b" by auto
    with False show ?thesis
      unfolding rhe a by (simp add: algebra_simps)
  qed
qed

lemma str_nat_digit: "d < 10 \<Longrightarrow> str_nat d = [digit_char d]"
  by (simp add: str_nat.simps)

lemma format_1f_near:
  assumes "0 < b"
  shows "\<exists>t. format_1f a b = str_nat (t div 10) @ ''.'' @ [digit_char (t mod 10)]
           \<and> nearest_tenths t a b"
proof -
  define t where "t = round_half_even (10 * a) b"
  have "format_1f a b = str_nat (t div 10) @ ''.'' @ [digit_char (t mod 10)]"
    by (simp add: format_1f_def Let_def t_def str_nat_digit)
  moreover have "nearest_tenths t a b"
    unfolding nearest_tenths_def t_def using round_half_even_near [OF assms, of "10 * a"] by simp
  ultimately show ?thesis by blast
qed

lemma bit_length_le: "n < 2 ^ k \<Longrightarrow> bit_length n \<le> k"
proof (induction n arbitrary: k rule: bit_length.induct)
  case (1 n)
  show ?case
  proof (cases "n = 0")
    case True
    then show ?thesis by (simp add: bit_length.simps)
  next
    case False
    with 1(2) obtain j where k: "k = Suc j" by (cases k) auto
    with 1(2) have "n div 2 < 2 ^ j" by auto
    with 1(1) [OF False] have "bit_length (n div 2) \<le> j" .
    with False k show ?thesis by (simp add: bit_length.simps [of n])
  qed
qed

lemma bit_length_lower: "0 < n \<Longrightarrow> 2 ^ (bit_length n - 1) \<le> n"
proof (induction n rule: bit_length.induct)
  case (1 n)
  show ?case
  proof (cases "n div 2 = 0")
    case True
    with 1(2) have "n = 1" by (auto simp: div_eq_0_iff)
    then show ?thesis by (simp add: bit_length.simps)
  next
    case False
    then have "2 ^ (bit_length (n div 2) - 1) \<le> n div 2"
      using 1 by auto
    moreover have "bit_length n - 1 = Suc (bit_length (n div 2) - 1)"
      using False 1(2) by (simp add: bit_length.simps [of n] bit_length.simps [of "n div 2"])
    ultimately show ?thesis by simp
  qed
qed

lemma double_of_nat_exact: "n < 2 ^ 53 \<Longrightarrow> double_of_nat n = n"
  using bit_length_le [of n 53] by (simp add: double_of_nat_def round_half_even_def)

lemma double_of_nat_near: "2 ^ 53 * \<bar>int (double_of_nat n) - int n\<bar> \<le> int n"
proof (cases "bit_length n \<le> 53")
  case True
  then show ?thesis by (simp add: double_of_nat_def round_half_even_def)
next
  case False
  define e where "e = bit_length n - 53"
  have bl: "bit_length n - 1 = e + 52" and "0 < n"
    using False by (auto simp: e_def bit_length.simps [of 0] intro: gr0I)
  then have low: "(2::nat) ^ (e + 52) \<le> n"
    using bit_length_lower [of n] by simp
  have "2 * \<bar>int (2 ^ e) * int (round_half_even n (2 ^ e)) - int n\<bar> \<le> int (2 ^ e)"
    by (rule round_half_even_near) simp
  then have "2 * \<bar>int (double_of_nat n) - int n\<bar> \<le> 2 ^ e"
    by (simp add: double_of_nat_def e_def Let_def mult.commute)
  then have "2 ^ 52 * (2 * \<bar>int (double_of_nat n) - int n\<bar>) \<le> 2 ^ 52 * (2 ^ e :: int)"
    by (rule mult_left_mono) simp
  also have "\<dots> = int (2 ^ (e + 52))"
    by (simp add: power_add)
  also have "\<dots> \<le> int n"
    using low by (simp only: of_nat_le_iff)
  finally show ?thesis by simp
qed

lemmas get_size_eval = get_size_def double_of_nat_exact format_1f_def round_half_even_def
  str_int_def str_nat.simps digit_char_def

lemma bit_length_upper: "n < 2 ^ bit_length n"
proof (induction n rule: bit_length.induct)
  case (1 n)
  show ?case
  proof (cases "n = 0")
    case True
    then show ?thesis by simp
  next
    case False
    then have "n div 2 < 2 ^ bit_length (n div 2)"
      by (rule 1)
    then have "n < 2 * 2 ^ bit_length (n div 2)"
      by linarith
    with False show ?thesis
      by (simp add: bit_length.simps [of n])
  qed
qed

lemma bit_length_eq:
  assumes "2 ^ k \<le> n" and "n < 2 ^ Suc k"
  shows "bit_length n = Suc k"
proof -
  have "bit_length n \<le> Suc k"
    using assms(2) by (rule bit_length_le)
  moreover have "k < bit_length n"
  proof (rule ccontr)
    assume "\<not> k < bit_length n"
    then have "(2::nat) ^ bit_length n \<le> 2 ^ k"
      by (simp add: power_increasing)
    with bit_length_upper [of n] assms(1) show False
      by linarith
  qed
  ultimately show ?thesis by linarith
qed

lemma bit_length_big: "bit_length 9007199254793421 = 54"
proof -
  have "bit_length 9007199254793421 = Suc 53"
    by (rule bit_length_eq) simp_all
  then show ?thesis by simp
qed

lemma double_of_nat_big: "double_of_nat 9007199254793421 = 9007199254793420"
  by (simp add: double_of_nat_def bit_length_big round_half_even_def)

lemma get_size_big: "get_size 9007199254793421 = ''(8589934592.0 MB)''"
  by (simp add: get_size_def double_of_nat_big format_1f_def round_half_even_def
      str_nat.simps digit_char_def)

text \<open>
  Claim C7, as amended. The size formatter has three tiers. A size below 1024 is printed
  as the integer with the unit B. From 1024 up to, but not including, 1048576 it is
  printed with the unit KB, and from 1048576 on with the unit MB, as a number with exactly
  one digit after the point. Below \<open>2 ^ 53\<close> that number is a multiple of one tenth
  nearest to the size divided by 1024, respectively by 1048576. From \<open>2 ^ 53\<close> on (and
  below \<open>2 ^ 1024\<close>, where a double ends) the size is first rounded to a double, which is
  never further from it than one part in \<open>2 ^ 53\<close>, and the number printed is a multiple
  of one tenth nearest to that double divided by 1048576. The sizes 0, 1023, 1024 and
  1048576 are printed as "(0 B)", "(1023 B)", "(1.0 KB)" and "(1.0 MB)".
\<close>

theorem get_size_tiers:
  "(n < 1024 \<longrightarrow> get_size n = ''('' @ str_int n @ '' B)'') \<and>
   (1024 \<le> n \<and> n < 1048576 \<longrightarrow>
      (\<exists>t. get_size n = ''('' @ str_nat (t div 10) @ ''.'' @ [digit_char (t mod 10)] @ '' KB)'' \<and>
           nearest_tenths t (nat n) 1024)) \<and>
   (1048576 \<le> n \<and> n < 2 ^ 53 \<longrightarrow>
      (\<exists>t. get_size n = ''('' @ str_nat (t div 10) @ ''.'' @ [digit_char (t mod 10)] @ '' MB)'' \<and>
           nearest_tenths t (nat n) 1048576)) \<and>
   (2 ^ 53 \<le> n \<and> n < 2 ^ 1024 \<longrightarrow>
      (\<exists>t. get_size n = ''('' @ str_nat (t div 10) @ ''.'' @ [digit_char (t mod 10)] @ '' MB)'' \<and>
           nearest_tenths t (double_of_nat (nat n)) 1048576 \<and>
           2 ^ 53 * \<bar>int (double_of_nat (nat n)) - n\<bar> \<le> n)) \<and>
   get_size 0 = ''(0 B)'' \<and> get_size 1023 = ''(1023 B)'' \<and>
   get_size 1024 = ''(1.0 KB)'' \<and> get_size 1048576 = ''(1.0 MB)''"
proof (intro conjI impI)
  assume "n < 1024"
  then show "get_size n = ''('' @ str_int n @ '' B)''"
    by (simp add: get_size_def)
next
  assume n: "1024 \<le> n \<and> n < 1048576"
  then have "n < 2 ^ 53" by simp
  then have "nat n < 2 ^ 53" by (simp add: nat_less_iff)
  then have d: "double_of_nat (nat n) = nat n" by (rule double_of_nat_exact)
  obtain t where "format_1f (nat n) 1024 = str_nat (t div 10) @ ''.'' @ [digit_char (t mod 10)]"
    and "nearest_tenths t (nat n) 1024"
    using format_1f_near [of 1024 "nat n"] by auto
  with n d show "\<exists>t. get_size n = ''('' @ str_nat (t div 10) @ ''.'' @ [digit_char (t mod 10)] @ '' KB)'' \<and>
           nearest_tenths t (nat n) 1024"
    by (auto simp: get_size_def)
next
  assume n: "1048576 \<le> n \<and> n < 2 ^ 53"
  then have "nat n < 2 ^ 53" by (simp add: nat_less_iff)
  then have d: "double_of_nat (nat n) = nat n" by (rule double_of_nat_exact)
  obtain t where "format_1f (nat n) 1048576 = str_nat (t div 10) @ ''.'' @ [digit_char (t mod 10)]"
    and "nearest_tenths t (nat n) 1048576"
    using format_1f_near [of 1048576 "nat n"] by auto
  with n d show "\<exists>t. get_size n = ''('' @ str_nat (t div 10) @ ''.'' @ [digit_char (t mod 10)] @ '' MB)'' \<and>
           nearest_tenths t (nat n) 1048576"
    by (auto simp: get_size_def)
next
  assume "2 ^ 53 \<le> n \<and> n < 2 ^ 1024"
  then have "2 ^ 53 \<le> n" by (rule conjunct1)
  then have n: "1048576 \<le> n" by simp
  obtain t where "format_1f (double_of_nat (nat n)) 1048576
      = str_nat (t div 10) @ ''.'' @ [digit_char (t mod 10)]"
    and "nearest_tenths t (double_of_nat (nat n)) 1048576"
    using format_1f_near [of 1048576 "double_of_nat (nat n)"] by auto
  moreover have "2 ^ 53 * \<bar>int (double_of_nat (nat n)) - n\<bar> \<le> n"
    using double_of_nat_near [of "nat n"] n by simp
  ultimately show "\<exists>t. get_size n = ''('' @ str_nat (t div 10) @ ''.'' @ [digit_char (t mod 10)] @ '' MB)'' \<and>
           nearest_tenths t (double_of_nat (nat n)) 1048576 \<and>
           2 ^ 53 * \<bar>int (double_of_nat (nat n)) - n\<bar> \<le> n"
    using n by (auto simp: get_size_def)
next
  show "get_size 0 = ''(0 B)''" by (simp add: get_size_eval)
  show "get_size 1023 = ''(1023 B)''" by (simp add: get_size_eval)
  show "get_size 1024 = ''(1.0 KB)''" by (simp add: get_size_eval)
  show "get_size 1048576 = ''(1.0 MB)''" by (simp add: get_size_eval)
qed

theorem get_size_tiers_witness:
  "(5::int) < 1024 \<and> get_size 5 = ''(5 B)'' \<and>
   (1024::int) \<le> 1280 \<and> (1280::int) < 1048576 \<and>
   (\<exists>t. get_size 1280 = ''('' @ str_nat (t div 10) @ ''.'' @ [digit_char (t mod 10)] @ '' KB)'' \<and>
        nearest_tenths t 1280 1024) \<and>
   (1048576::int) \<le> 3000000 \<and> (3000000::int) < 2 ^ 53 \<and>
   (\<exists>t. get_size 3000000 = ''('' @ str_nat (t div 10) @ ''.'' @ [digit_char (t mod 10)] @ '' MB)'' \<and>
        nearest_tenths t 3000000 1048576) \<and>
   (2::int) ^ 53 \<le> 9007199254793421 \<and> (9007199254793421::int) < 2 ^ 1024 \<and>
   (\<exists>t. get_size 9007199254793421
          = ''('' @ str_nat (t div 10) @ ''.'' @ [digit_char (t mod 10)] @ '' MB)'' \<and>
        nearest_tenths t 9007199254793420 1048576)"
proof -
  have "str_int 5 = ''5''"
    by (simp add: get_size_eval)
  moreover have "(2::int) ^ 53 \<le> 9007199254793421 \<and> (9007199254793421::int) < 2 ^ 1024"
    by simp
  moreover note double_of_nat_big
  ultimately show ?thesis
    using get_size_tiers [of 5] get_size_tiers [of 1280] get_size_tiers [of 3000000]
      get_size_tiers [of 9007199254793421]
    by simp
qed

text \<open>
  The claim as it was stated promises the size divided by 1048576, to one decimal place,
  for every size. At 9007199254793421 bytes (\<open>2 ^ 53 + 52429\<close>) the division yields the
  double 9007199254793420 / 1048576, and "8589934592.0" is printed, while the size
  divided by 1048576 is 8589934592.0500002 and its nearest tenth is 8589934592.1.
\<close>

theorem get_size_counterexample:
  "get_size 9007199254793421 = ''(8589934592.0 MB)'' \<and>
   \<not> nearest_tenths 85899345920 9007199254793421 1048576 \<and>
   nearest_tenths 85899345921 9007199254793421 1048576"
  by (simp add: get_size_big nearest_tenths_def)

subsection \<open>Connectors and prefixes\<close>

lemma startswith_iff: "startswith s p \<longleftrightarrow> (\<exists>r. s = p @ r)"
  unfolding startswith_def by (metis append_eq_conv_conj)

lemma startswith_append [simp]: "startswith (p @ s) (p @ q) = startswith s q"
  by (simp add: startswith_def)

lemma startswith_appendI: "startswith s (p @ q) \<Longrightarrow> startswith s p"
  by (auto simp: startswith_iff)

lemma entry_line_shape:
  "\<exists>rest. entry_line pf self prefix connector entry = prefix @ connector @ '' '' @ rest"
  by (simp add: entry_line_def Let_def)

lemma tree_structure_unfold:
  "tree_structure pf self iterdir prefix =
     concat (map (\<lambda>(i, entry).
        entry_line pf self prefix
          (if i = length (filter_entries pf self iterdir) - 1 then CORNER_STRING else FORK_STRING) entry #
        (case entry of
           Dir _ _ _ sub \<Rightarrow>
             tree_structure pf self sub
               (prefix @ (if i = length (filter_entries pf self iterdir) - 1
                          then SPACE_STRING else WALL_STRING))
         | _ \<Rightarrow> []))
       (enumerate 0 (filter_entries pf self iterdir)))"
  by (subst tree_structure.simps) (simp add: Let_def)

lemma tree_structure_prefix:
  "line \<in> set (tree_structure pf self iterdir prefix) \<Longrightarrow> startswith line prefix"
proof (induction pf self iterdir prefix arbitrary: line rule: tree_structure.induct)
  case (1 pf self iterdir prefix)
  define entries where "entries = filter_entries pf self iterdir"
  from "1.prems" obtain i entry where ie: "(i, entry) \<in> set (enumerate 0 entries)"
    and line: "line = entry_line pf self prefix
          (if i = length entries - 1 then CORNER_STRING else FORK_STRING) entry \<or>
        (\<exists>nm mt sz sub. entry = Dir nm mt sz sub \<and>
           line \<in> set (tree_structure pf self sub
               (prefix @ (if i = length entries - 1 then SPACE_STRING else WALL_STRING))))"
    unfolding tree_structure_unfold [of pf self iterdir prefix] entries_def
    by (auto split: node.splits)
  from line show ?case
  proof
    assume "line = entry_line pf self prefix
          (if i = length entries - 1 then CORNER_STRING else FORK_STRING) entry"
    then show ?thesis
      using entry_line_shape [of pf self prefix _ entry] by (auto simp: startswith_iff)
  next
    assume "\<exists>nm mt sz sub. entry = Dir nm mt sz sub \<and>
           line \<in> set (tree_structure pf self sub
               (prefix @ (if i = length entries - 1 then SPACE_STRING else WALL_STRING)))"
    then obtain nm mt sz sub where e: "entry = Dir nm mt sz sub"
      and l: "line \<in> set (tree_structure pf self sub
               (prefix @ (if i = length entries - 1 then SPACE_STRING else WALL_STRING)))"
      by blast
    have "startswith line (prefix @ (if i = length entries - 1 then SPACE_STRING else WALL_STRING))"
      by (rule "1.IH" [OF entries_def ie refl refl e l])
    then show ?thesis by (rule startswith_appendI)
  qed
qed

lemma filter_blocks:
  assumes "\<And>i e l. (i, e) \<in> set xs \<Longrightarrow> l \<in> set (g i e) \<Longrightarrow> \<not> P l"
  shows "filter P (concat (map (\<lambda>(i, e). f i e # g i e) xs)) = filter P (map (\<lambda>(i, e). f i e) xs)"
  using assms
proof (induction xs)
  case Nil
  show ?case by simp
next
  case (Cons x xs)
  obtain i e where x: "x = (i, e)" by (cases x)
  have "filter P (g i e) = []"
    using Cons.prems [of i e] x by (auto simp: filter_empty_conv)
  moreover have "filter P (concat (map (\<lambda>(i, e). f i e # g i e) xs))
      = filter P (map (\<lambda>(i, e). f i e) xs)"
    by (rule Cons.IH) (use Cons.prems in auto)
  ultimately show ?case by (simp add: x)
qed

lemma enumerate_last_split:
  assumes "es \<noteq> []"
  shows "map (\<lambda>(i, e). h (if i = length es - 1 then c1 else c2) e) (enumerate 0 es)
    = map (h c2) (butlast es) @ [h c1 (last es)]"
proof -
  define bs x where "bs = butlast es" and "x = last es"
  have es: "es = bs @ [x]"
    using assms by (simp add: bs_def x_def)
  have "map (\<lambda>(i, e). h (if i = length bs then c1 else c2) e) (enumerate 0 bs) = map (h c2) bs"
  proof -
    have "map (\<lambda>(i, e). h (if i = length bs then c1 else c2) e) (enumerate 0 bs)
      = map (\<lambda>(i, e). h c2 e) (enumerate 0 bs)"
      by (rule map_cong) (auto simp: in_set_enumerate_eq)
    also have "\<dots> = map (h c2) (map snd (enumerate 0 bs))"
      unfolding map_map by (rule map_cong) auto
    finally show ?thesis by simp
  qed
  then show ?thesis
    unfolding es by (simp add: enumerate_append_eq)
qed

lemma connector_own:
  "uses_connector prefix FORK_STRING (entry_line pf self prefix FORK_STRING e)"
  "uses_connector prefix CORNER_STRING (entry_line pf self prefix CORNER_STRING e)"
  using entry_line_shape [of pf self prefix FORK_STRING e]
    entry_line_shape [of pf self prefix CORNER_STRING e]
  by (auto simp: uses_connector_def startswith_iff)

lemma connector_other:
  "\<not> uses_connector prefix FORK_STRING (entry_line pf self prefix CORNER_STRING e)"
  "\<not> uses_connector prefix CORNER_STRING (entry_line pf self prefix FORK_STRING e)"
  using entry_line_shape [of pf self prefix FORK_STRING e]
    entry_line_shape [of pf self prefix CORNER_STRING e]
  by (auto simp: uses_connector_def startswith_def FORK_STRING_def CORNER_STRING_def WHITE_def)

lemma connector_descendant:
  assumes "startswith l (prefix @ seg)" "seg = SPACE_STRING \<or> seg = WALL_STRING"
  shows "\<not> uses_connector prefix FORK_STRING l" "\<not> uses_connector prefix CORNER_STRING l"
proof -
  from assms(1) obtain r where l: "l = prefix @ seg @ r"
    by (auto simp: startswith_iff)
  show "\<not> uses_connector prefix FORK_STRING l"
    using assms(2) unfolding l uses_connector_def
    by (auto simp: startswith_def FORK_STRING_def SPACE_STRING_def WALL_STRING_def WHITE_def ESC_def)
  show "\<not> uses_connector prefix CORNER_STRING l"
    using assms(2) unfolding l uses_connector_def
    by (auto simp: startswith_def CORNER_STRING_def SPACE_STRING_def WALL_STRING_def WHITE_def ESC_def)
qed

lemma child_lines:
  assumes "P = uses_connector prefix FORK_STRING \<or> P = uses_connector prefix CORNER_STRING
     \<or> P = (\<lambda>l. uses_connector prefix FORK_STRING l \<or> uses_connector prefix CORNER_STRING l)"
  shows "filter P (tree_structure pf self iterdir prefix) =
    filter P (map (\<lambda>(i, entry). entry_line pf self prefix
          (if i = length (filter_entries pf self iterdir) - 1 then CORNER_STRING else FORK_STRING) entry)
       (enumerate 0 (filter_entries pf self iterdir)))"
  unfolding tree_structure_unfold [of pf self iterdir prefix]
proof (rule filter_blocks)
  fix i e l
  assume "l \<in> set (case e of
      Dir _ _ _ sub \<Rightarrow> tree_structure pf self sub
         (prefix @ (if i = length (filter_entries pf self iterdir) - 1
                    then SPACE_STRING else WALL_STRING))
    | _ \<Rightarrow> [])"
  then have "startswith l (prefix @ (if i = length (filter_entries pf self iterdir) - 1
                    then SPACE_STRING else WALL_STRING))"
    by (auto split: node.splits dest: tree_structure_prefix)
  then have "\<not> uses_connector prefix FORK_STRING l \<and> \<not> uses_connector prefix CORNER_STRING l"
    using connector_descendant by presburger
  with assms show "\<not> P l" by auto
qed

lemma filter_entries_project:
  "filter_entries posix plain project =
     [Dir ''a'' 0 4096 [File ''x.txt'' 0 500], Dir ''src'' 0 4096 [File ''.keep'' 0 2000],
      File ''root.txt'' 0 100]"
  by (simp add: filter_entries_def plain_def init_def posix_def project_def is_ignored_def
      is_hidden_def startswith_def)

text \<open>
  Claim C1. Let the filtered and sorted children of a directory be non-empty. Among the
  lines that \<open>tree_structure\<close> returns for it, the child lines of this level (the lines
  that start with the prefix, a connector and a blank) are the lines of the children in
  their order: the fork connector for every child but the last, the corner connector for
  the last. So exactly one line uses the corner connector, it is the last child's, and
  all other children use the fork connector.
\<close>

theorem connector_property:
  assumes "entries = filter_entries pf self iterdir" and "entries \<noteq> []"
  shows "filter (\<lambda>l. uses_connector prefix FORK_STRING l \<or> uses_connector prefix CORNER_STRING l)
           (tree_structure pf self iterdir prefix)
         = map (entry_line pf self prefix FORK_STRING) (butlast entries) @
           [entry_line pf self prefix CORNER_STRING (last entries)]
       \<and> filter (uses_connector prefix CORNER_STRING) (tree_structure pf self iterdir prefix)
         = [entry_line pf self prefix CORNER_STRING (last entries)]
       \<and> filter (uses_connector prefix FORK_STRING) (tree_structure pf self iterdir prefix)
         = map (entry_line pf self prefix FORK_STRING) (butlast entries)"
proof -
  have lines: "map (\<lambda>(i, entry). entry_line pf self prefix
          (if i = length (filter_entries pf self iterdir) - 1 then CORNER_STRING else FORK_STRING) entry)
       (enumerate 0 (filter_entries pf self iterdir))
     = map (entry_line pf self prefix FORK_STRING) (butlast entries) @
           [entry_line pf self prefix CORNER_STRING (last entries)]"
    using enumerate_last_split [OF assms(2), of "entry_line pf self prefix"] assms(1) by simp
  have fork: "filter (uses_connector prefix FORK_STRING)
      (map (entry_line pf self prefix FORK_STRING) (butlast entries))
      = map (entry_line pf self prefix FORK_STRING) (butlast entries)"
    by (simp add: connector_own)
  have corner: "filter (uses_connector prefix CORNER_STRING)
      (map (entry_line pf self prefix FORK_STRING) (butlast entries)) = []"
    by (simp add: connector_other filter_empty_conv)
  have both: "filter (\<lambda>l. uses_connector prefix FORK_STRING l \<or> uses_connector prefix CORNER_STRING l)
      (map (entry_line pf self prefix FORK_STRING) (butlast entries))
      = map (entry_line pf self prefix FORK_STRING) (butlast entries)"
    by (simp add: connector_own)
  note cl = child_lines [of _ prefix pf self iterdir, unfolded lines]
  have "filter (\<lambda>l. uses_connector prefix FORK_STRING l \<or> uses_connector prefix CORNER_STRING l)
           (tree_structure pf self iterdir prefix)
         = map (entry_line pf self prefix FORK_STRING) (butlast entries) @
           [entry_line pf self prefix CORNER_STRING (last entries)]"
    by (subst cl) (simp_all add: both connector_own)
  moreover have "filter (uses_connector prefix CORNER_STRING) (tree_structure pf self iterdir prefix)
         = [entry_line pf self prefix CORNER_STRING (last entries)]"
    by (subst cl) (simp_all add: corner connector_own)
  moreover have "filter (uses_connector prefix FORK_STRING) (tree_structure pf self iterdir prefix)
         = map (entry_line pf self prefix FORK_STRING) (butlast entries)"
    by (subst cl) (simp_all add: fork connector_other)
  ultimately show ?thesis by blast
qed

theorem connector_property_witness:
  "filter_entries posix plain project \<noteq> [] \<and>
   filter (uses_connector [] CORNER_STRING) (tree_structure posix plain project [])
     = [CORNER_STRING @ '' '' @ GREEN @ ''root.txt''] \<and>
   filter (uses_connector [] FORK_STRING) (tree_structure posix plain project [])
     = [FORK_STRING @ '' '' @ BLUE @ ''a/'', FORK_STRING @ '' '' @ BLUE @ ''src/'']"
proof -
  have "entry_line posix plain [] CORNER_STRING (File ''root.txt'' 0 100)
      = CORNER_STRING @ '' '' @ GREEN @ ''root.txt''"
    and "entry_line posix plain [] FORK_STRING (Dir ''a'' 0 4096 [File ''x.txt'' 0 500])
      = FORK_STRING @ '' '' @ BLUE @ ''a/''"
    and "entry_line posix plain [] FORK_STRING (Dir ''src'' 0 4096 [File ''.keep'' 0 2000])
      = FORK_STRING @ '' '' @ BLUE @ ''src/''"
    by (simp_all add: entry_line_def plain_def init_def)
  then show ?thesis
    using connector_property [of "filter_entries posix plain project" posix plain project "[]"]
    by (simp add: filter_entries_project)
qed

lemma block_at:
  assumes "i < length es"
  shows "\<exists>before after. concat (map F (enumerate 0 es)) = before @ F (i, es ! i) @ after"
proof -
  have "enumerate 0 es = enumerate 0 (take i es @ es ! i # drop (Suc i) es)"
    using assms by (simp add: id_take_nth_drop [symmetric])
  also have "\<dots> = enumerate 0 (take i es) @ (i, es ! i) # enumerate (Suc i) (drop (Suc i) es)"
    using assms by (simp add: enumerate_append_eq min_def)
  finally show ?thesis
    by (metis concat.simps(2) concat_append list.simps(9) map_append)
qed

text \<open>
  Claim C2. For a directory entry at position \<open>i\<close> of the filtered and sorted children,
  the lines of \<open>tree_structure\<close> contain the entry's own line, directly followed by the
  result of the recursive call on the entry, whose prefix is the current prefix extended
  by the space segment when the entry is the last child and by the wall segment
  otherwise; and every line of that recursive call, at any depth, starts with the
  extended prefix.
\<close>

theorem prefix_propagation:
  assumes "entries = filter_entries pf self iterdir"
    and "i < length entries"
    and "entries ! i = Dir nm mt sz sub"
  shows "(\<exists>before after. tree_structure pf self iterdir prefix =
            before @
            entry_line pf self prefix
              (if i = length entries - 1 then CORNER_STRING else FORK_STRING) (entries ! i) #
            tree_structure pf self sub
              (prefix @ (if i = length entries - 1 then SPACE_STRING else WALL_STRING)) @
            after)
       \<and> (\<forall>l \<in> set (tree_structure pf self sub
                (prefix @ (if i = length entries - 1 then SPACE_STRING else WALL_STRING))).
            startswith l (prefix @ (if i = length entries - 1 then SPACE_STRING else WALL_STRING)))"
proof
  show "\<exists>before after. tree_structure pf self iterdir prefix =
            before @
            entry_line pf self prefix
              (if i = length entries - 1 then CORNER_STRING else FORK_STRING) (entries ! i) #
            tree_structure pf self sub
              (prefix @ (if i = length entries - 1 then SPACE_STRING else WALL_STRING)) @
            after"
    unfolding tree_structure_unfold [of pf self iterdir prefix]
    using block_at [OF assms(2)] assms(3) unfolding assms(1)
    by (metis (no_types, lifting) append_Cons case_prod_conv node.simps(11))
  show "\<forall>l \<in> set (tree_structure pf self sub
                (prefix @ (if i = length entries - 1 then SPACE_STRING else WALL_STRING))).
            startswith l (prefix @ (if i = length entries - 1 then SPACE_STRING else WALL_STRING))"
    by (blast intro: tree_structure_prefix)
qed

lemma filter_entries_a:
  "filter_entries posix plain [File ''x.txt'' 0 500] = [File ''x.txt'' 0 500]"
  by (simp add: filter_entries_def plain_def init_def posix_def is_ignored_def
      is_hidden_def startswith_def)

lemma tree_structure_a:
  "tree_structure posix plain [File ''x.txt'' 0 500] p = [p @ CORNER_STRING @ '' '' @ GREEN @ ''x.txt'']"
  by (simp add: tree_structure_unfold filter_entries_a entry_line_def) (simp add: plain_def init_def)

theorem prefix_propagation_witness:
  "0 < length (filter_entries posix plain project) \<and>
   filter_entries posix plain project ! 0 = Dir ''a'' 0 4096 [File ''x.txt'' 0 500] \<and>
   (\<exists>before after. tree_structure posix plain project [] =
      before @ (FORK_STRING @ '' '' @ BLUE @ ''a/'') #
      [WALL_STRING @ CORNER_STRING @ '' '' @ GREEN @ ''x.txt''] @ after) \<and>
   startswith (WALL_STRING @ CORNER_STRING @ '' '' @ GREEN @ ''x.txt'') WALL_STRING"
proof -
  have "entry_line posix plain [] FORK_STRING (Dir ''a'' 0 4096 [File ''x.txt'' 0 500])
      = FORK_STRING @ '' '' @ BLUE @ ''a/''"
    by (simp add: entry_line_def plain_def init_def)
  then show ?thesis
    using prefix_propagation [of "filter_entries posix plain project" posix plain project 0
        "''a''" 0 4096 "[File ''x.txt'' 0 500]" "[]"]
    by (simp add: filter_entries_project tree_structure_a)
qed

subsection \<open>Filtering and ordering\<close>

lemma set_filter_entries:
  "set (filter_entries pf self iterdir) =
     {e \<in> set iterdir. \<not> is_ignored pf self (name e) \<and> (show_files self \<or> is_dir e) \<and>
        (show_hidden self \<or> \<not> is_hidden (name e))}"
  by (auto simp: filter_entries_def Let_def)

lemma distinct_map_sort_key:
  "distinct (map f (sort_key k xs)) = distinct (map f xs)"
  by (simp add: distinct_map)

lemma distinct_filter_entries:
  "distinct (map name iterdir) \<Longrightarrow> distinct (map name (filter_entries pf self iterdir))"
  by (simp add: filter_entries_def Let_def distinct_map_sort_key distinct_map_filter)

lemma sorted_filter_entries:
  "sorted (map (\<lambda>x. (is_file x, name x)) (filter_entries pf self iterdir))"
  by (simp add: filter_entries_def Let_def)

lemma filter_entries_order:
  assumes "distinct (map name iterdir)" and "entries = filter_entries pf self iterdir"
    and "i < j" and "j < length entries"
  shows "(is_file (entries ! i) \<longrightarrow> is_file (entries ! j)) \<and>
         (is_file (entries ! i) = is_file (entries ! j) \<longrightarrow> name (entries ! i) < name (entries ! j))"
proof -
  have "sorted (map (\<lambda>x. (is_file x, name x)) entries)"
    unfolding assms(2) by (rule sorted_filter_entries)
  then have "map (\<lambda>x. (is_file x, name x)) entries ! i \<le> map (\<lambda>x. (is_file x, name x)) entries ! j"
    using assms(3,4) by (simp add: sorted_iff_nth_mono del: nth_map)
  then have le: "(is_file (entries ! i), name (entries ! i)) \<le> (is_file (entries ! j), name (entries ! j))"
    using assms(3,4) by simp
  have "distinct (map name entries)"
    unfolding assms(2) using assms(1) by (rule distinct_filter_entries)
  then have "map name entries ! i \<noteq> map name entries ! j"
    using assms(3,4) by (simp add: nth_eq_iff_index_eq del: nth_map)
  then have ne: "name (entries ! i) \<noteq> name (entries ! j)"
    using assms(3,4) by simp
  from le ne show ?thesis
    by (auto simp: less_eq_prod_def)
qed

lemma child_lines_all:
  "filter (\<lambda>l. uses_connector prefix FORK_STRING l \<or> uses_connector prefix CORNER_STRING l)
            (tree_structure pf self iterdir prefix)
          = map (\<lambda>(i, entry). entry_line pf self prefix
                   (if i = length (filter_entries pf self iterdir) - 1
                    then CORNER_STRING else FORK_STRING) entry)
              (enumerate 0 (filter_entries pf self iterdir))"
proof -
  have "filter (\<lambda>l. uses_connector prefix FORK_STRING l \<or> uses_connector prefix CORNER_STRING l)
      (map (\<lambda>(i, entry). entry_line pf self prefix
                   (if i = length (filter_entries pf self iterdir) - 1
                    then CORNER_STRING else FORK_STRING) entry)
              (enumerate 0 (filter_entries pf self iterdir)))
     = map (\<lambda>(i, entry). entry_line pf self prefix
                   (if i = length (filter_entries pf self iterdir) - 1
                    then CORNER_STRING else FORK_STRING) entry)
              (enumerate 0 (filter_entries pf self iterdir))"
    by (rule filter_True) (auto simp: connector_own)
  then show ?thesis
    by (subst child_lines) simp_all
qed

text \<open>
  Claim C3, as amended. In a directory whose listing has no name twice, the filtered and
  sorted children are rendered in their order (the child lines of the level are their
  lines, one after the other). Every entry that is not a regular file comes before every
  regular file; in particular no regular file comes before a directory. The names
  increase strictly among the entries that are not regular files, hence among the
  directories, and among the regular files. Names are compared by the lexicographic order
  on strings. An entry that is neither a regular file nor a directory is placed with the
  directories, by its name, although its line looks like a file's.
\<close>

theorem ordering_property:
  assumes "distinct (map name iterdir)" and "entries = filter_entries pf self iterdir"
  shows "(\<forall>i j. i < j \<and> j < length entries \<and> is_file (entries ! i) \<longrightarrow> is_file (entries ! j))
       \<and> (\<forall>i j. i < j \<and> j < length entries \<and> is_file (entries ! i) = is_file (entries ! j)
              \<longrightarrow> name (entries ! i) < name (entries ! j))
       \<and> (\<forall>i j. i < j \<and> j < length entries \<and> is_dir (entries ! j) \<longrightarrow> \<not> is_file (entries ! i))
       \<and> (\<forall>i j. i < j \<and> j < length entries \<and> is_dir (entries ! i) \<and> is_dir (entries ! j)
              \<longrightarrow> name (entries ! i) < name (entries ! j))
       \<and> filter (\<lambda>l. uses_connector prefix FORK_STRING l \<or> uses_connector prefix CORNER_STRING l)
            (tree_structure pf self iterdir prefix)
          = map (\<lambda>(i, entry). entry_line pf self prefix
                   (if i = length entries - 1 then CORNER_STRING else FORK_STRING) entry)
              (enumerate 0 entries)"
proof (intro conjI allI impI)
  fix i j
  assume "i < j \<and> j < length entries \<and> is_file (entries ! i)"
  then show "is_file (entries ! j)"
    using filter_entries_order [OF assms, of i j] by blast
next
  fix i j
  assume "i < j \<and> j < length entries \<and> is_file (entries ! i) = is_file (entries ! j)"
  then show "name (entries ! i) < name (entries ! j)"
    using filter_entries_order [OF assms, of i j] by blast
next
  fix i j
  assume a: "i < j \<and> j < length entries \<and> is_dir (entries ! j)"
  then have "\<not> is_file (entries ! j)" by (cases "entries ! j") auto
  with a show "\<not> is_file (entries ! i)"
    using filter_entries_order [OF assms, of i j] by blast
next
  fix i j
  assume a: "i < j \<and> j < length entries \<and> is_dir (entries ! i) \<and> is_dir (entries ! j)"
  then have "is_file (entries ! i) = is_file (entries ! j)"
    by (cases "entries ! i"; cases "entries ! j") auto
  with a show "name (entries ! i) < name (entries ! j)"
    using filter_entries_order [OF assms, of i j] by blast
next
  show "filter (\<lambda>l. uses_connector prefix FORK_STRING l \<or> uses_connector prefix CORNER_STRING l)
            (tree_structure pf self iterdir prefix)
          = map (\<lambda>(i, entry). entry_line pf self prefix
                   (if i = length entries - 1 then CORNER_STRING else FORK_STRING) entry)
              (enumerate 0 entries)"
    unfolding assms(2) by (rule child_lines_all)
qed

theorem ordering_property_witness:
  "distinct (map name project) \<and>
   map name (filter_entries posix plain project) = [''a'', ''src'', ''root.txt''] \<and>
   \<not> is_file (filter_entries posix plain project ! 0) \<and>
   name (filter_entries posix plain project ! 0) < name (filter_entries posix plain project ! 1)"
proof -
  have d: "distinct (map name project)"
    by (simp add: project_def)
  have l: "(0::nat) < 1 \<and> 1 < length (filter_entries posix plain project) \<and>
      is_dir (filter_entries posix plain project ! 0) \<and>
      is_dir (filter_entries posix plain project ! 1)"
    by (simp add: filter_entries_project)
  from ordering_property [OF d refl, of posix plain] l
  have "\<not> is_file (filter_entries posix plain project ! 0)"
    and "name (filter_entries posix plain project ! 0) < name (filter_entries posix plain project ! 1)"
    by blast+
  with d show ?thesis
    by (simp add: filter_entries_project)
qed

text \<open>
  The claim as it was stated speaks of two kinds, directories and files. A directory
  may hold an entry of neither kind, a FIFO or a socket: the sort key tells regular
  files from all the rest, the rendering tells directories from all the rest. So the
  FIFO \<^verbatim>\<open>m\<close> is rendered as a file, and before the directory \<^verbatim>\<open>zz\<close>.
\<close>

theorem ordering_counterexample:
  "distinct (map name mixed) \<and>
   filter_entries posix plain mixed
     = [Other ''m'' 0 0, Dir ''zz'' 0 4096 [], File ''a.txt'' 0 1] \<and>
   tree_structure posix plain mixed []
     = [FORK_STRING @ '' '' @ GREEN @ ''m'',
        FORK_STRING @ '' '' @ BLUE @ ''zz/'',
        CORNER_STRING @ '' '' @ GREEN @ ''a.txt''] \<and>
   \<not> is_dir (Other ''m'' 0 0) \<and> is_dir (Dir ''zz'' 0 4096 [])"
proof -
  have f: "filter_entries posix plain mixed
     = [Other ''m'' 0 0, Dir ''zz'' 0 4096 [], File ''a.txt'' 0 1]"
    by (simp add: filter_entries_def plain_def init_def posix_def mixed_def is_ignored_def
        is_hidden_def startswith_def)
  have e: "filter_entries posix plain [] = []"
    by (simp add: filter_entries_def)
  have "tree_structure posix plain mixed []
     = [FORK_STRING @ '' '' @ GREEN @ ''m'',
        FORK_STRING @ '' '' @ BLUE @ ''zz/'',
        CORNER_STRING @ '' '' @ GREEN @ ''a.txt'']"
    by (simp add: tree_structure_unfold [of posix plain mixed] f entry_line_def
        tree_structure_unfold [of posix plain "[]"] e)
      (simp add: plain_def init_def)
  with f show ?thesis
    by (simp add: mixed_def)
qed

lemma count_list_distinct: "distinct xs \<Longrightarrow> x \<in> set xs \<Longrightarrow> count_list xs x = 1"
  by (induction xs) auto

text \<open>
  Claim C4. In a directory whose listing has no name twice, no rendered child has a name
  that matches an ignore pattern, and every entry of the listing that matches no ignore
  pattern, is a directory or comes with \<open>show_files\<close>, and is not hidden or comes with
  \<open>show_hidden\<close>, is rendered exactly once: it occurs once among the rendered children, as
  does its name, and the child lines of the level are the lines of the rendered children,
  one for each.
\<close>

theorem ignore_property:
  assumes "distinct (map name iterdir)" and "entries = filter_entries pf self iterdir"
  shows "(\<forall>e \<in> set entries. \<forall>pattern \<in> ignored_patterns self. \<not> fnmatch pf (name e) pattern)
       \<and> (\<forall>e \<in> set iterdir.
             (\<forall>pattern \<in> ignored_patterns self. \<not> fnmatch pf (name e) pattern) \<and>
             (show_files self \<or> is_dir e) \<and> (show_hidden self \<or> \<not> is_hidden (name e))
             \<longrightarrow> count_list entries e = 1 \<and> count_list (map name entries) (name e) = 1)
       \<and> filter (\<lambda>l. uses_connector prefix FORK_STRING l \<or> uses_connector prefix CORNER_STRING l)
            (tree_structure pf self iterdir prefix)
          = map (\<lambda>(i, entry). entry_line pf self prefix
                   (if i = length entries - 1 then CORNER_STRING else FORK_STRING) entry)
              (enumerate 0 entries)"
proof (intro conjI ballI impI)
  fix e pattern
  assume "e \<in> set entries" and "pattern \<in> ignored_patterns self"
  then show "\<not> fnmatch pf (name e) pattern"
    unfolding assms(2) set_filter_entries by (auto simp: is_ignored_def)
next
  fix e
  assume "e \<in> set iterdir"
    and "(\<forall>pattern \<in> ignored_patterns self. \<not> fnmatch pf (name e) pattern) \<and>
             (show_files self \<or> is_dir e) \<and> (show_hidden self \<or> \<not> is_hidden (name e))"
  then have e: "e \<in> set entries"
    unfolding assms(2) set_filter_entries by (auto simp: is_ignored_def)
  have dn: "distinct (map name entries)"
    unfolding assms(2) using assms(1) by (rule distinct_filter_entries)
  then have "distinct entries"
    by (simp add: distinct_map)
  with e show "count_list entries e = 1"
    by (simp add: count_list_distinct)
  from dn e show "count_list (map name entries) (name e) = 1"
    by (simp add: count_list_distinct)
next
  show "filter (\<lambda>l. uses_connector prefix FORK_STRING l \<or> uses_connector prefix CORNER_STRING l)
            (tree_structure pf self iterdir prefix)
          = map (\<lambda>(i, entry). entry_line pf self prefix
                   (if i = length entries - 1 then CORNER_STRING else FORK_STRING) entry)
              (enumerate 0 entries)"
    unfolding assms(2) by (rule child_lines_all)
qed

theorem ignore_property_witness:
  "distinct (map name project) \<and>
   File ''b.pyc'' 0 3 \<in> set project \<and> fnmatch posix ''b.pyc'' ''*.pyc'' \<and>
   ''*.pyc'' \<in> ignored_patterns plain \<and>
   File ''b.pyc'' 0 3 \<notin> set (filter_entries posix plain project) \<and>
   File ''root.txt'' 0 100 \<in> set project \<and>
   count_list (map name (filter_entries posix plain project)) ''root.txt'' = 1"
proof -
  have d: "distinct (map name project)"
    by (simp add: project_def)
  have r: "File ''root.txt'' 0 100 \<in> set project"
    by (simp add: project_def)
  have v: "(\<forall>pattern \<in> ignored_patterns plain. \<not> fnmatch posix (name (File ''root.txt'' 0 100)) pattern) \<and>
      (show_files plain \<or> is_dir (File ''root.txt'' 0 100)) \<and>
      (show_hidden plain \<or> \<not> is_hidden (name (File ''root.txt'' 0 100)))"
    by (simp add: plain_def init_def posix_def is_hidden_def startswith_def)
  from ignore_property [OF d refl, of posix plain] r v
  have "count_list (map name (filter_entries posix plain project)) (name (File ''root.txt'' 0 100)) = 1"
    by blast
  moreover from ignore_property [OF d refl, of posix plain]
  have "\<forall>e \<in> set (filter_entries posix plain project). \<not> fnmatch posix (name e) ''*.pyc''"
    by (simp add: plain_def init_def)
  then have "File ''b.pyc'' 0 3 \<notin> set (filter_entries posix plain project)"
    by (auto simp: posix_def)
  ultimately show ?thesis
    using d r by (simp add: project_def plain_def init_def posix_def)
qed

subsection \<open>Hidden entries\<close>






subsection \<open>Directory sizes\<close>




lemma get_size_nonempty: "get_size n \<noteq> []"
  by (simp add: get_size_def)



subsection \<open>Drawing\<close>

text \<open>
  Claim C8. When the configured path is not an existing directory, \<open>draw\<close> raises
  \<^verbatim>\<open>ValueError\<close> and leaves the world as it was: nothing is printed and no file is written,
  whatever \<open>as_string\<close> and \<open>save_path\<close> are.
\<close>

theorem invalid_root:
  assumes "\<not> path_is_dir w (path self)"
  shows "draw pf self as_string save_path w =
    (Inl (ValueError ''The specified path is not a directory.''), w)"
  using assms by (simp add: draw_def path_is_dir_def split: option.splits)

theorem invalid_root_witness:
  "\<not> path_is_dir disk (path missing) \<and>
   draw posix missing False (Some (Path [] [''out''])) disk =
     (Inl (ValueError ''The specified path is not a directory.''), disk) \<and>
   stdout disk = [] \<and> files disk (Path [] [''out'', ''tree_structure.txt'']) = None"
proof -
  have "\<not> path_is_dir disk (path missing)"
    by (simp add: path_is_dir_def disk_def missing_def init_def)
  then show ?thesis
    using invalid_root [of disk missing posix False "Some (Path [] [''out''])"]
    by (simp add: disk_def)
qed

text \<open>
  Claim C10. Two renderers built from lists of ignore patterns with the same set of
  members are the same renderer: they return the same lines for every directory, and
  \<open>draw\<close> returns the same result and has the same effects.
\<close>

theorem ignored_order_irrelevant:
  assumes "set ignored = set ignored'"
  shows "init p ignored sf smt ss sh = init p ignored' sf smt ss sh
       \<and> tree_structure pf (init p ignored sf smt ss sh) iterdir prefix
         = tree_structure pf (init p ignored' sf smt ss sh) iterdir prefix
       \<and> draw pf (init p ignored sf smt ss sh) as_string save_path w
         = draw pf (init p ignored' sf smt ss sh) as_string save_path w"
  using assms by (simp add: init_def)

theorem ignored_order_irrelevant_witness:
  "set [''*.pyc'', ''.hid''] = set [''.hid'', ''*.pyc'', ''.hid''] \<and>
   draw posix (init (Path [] [''proj'']) [''*.pyc'', ''.hid''] True False False True) True None disk
   = draw posix (init (Path [] [''proj'']) [''.hid'', ''*.pyc'', ''.hid''] True False False True) True None disk"
proof -
  have "set [''*.pyc'', ''.hid''] = set [''.hid'', ''*.pyc'', ''.hid'']"
    by auto
  then show ?thesis
    using ignored_order_irrelevant [of "[''*.pyc'', ''.hid'']" "[''.hid'', ''*.pyc'', ''.hid'']"]
    by blast
qed

subsection \<open>The exported file\<close>

lemma replace_from_Nil: "replace_from old new [] = []"
  by (simp add: replace_from.simps)

lemma replace_from_Cons:
  "replace_from old new (c # cs) =
     (if old \<noteq> [] \<and> startswith (c # cs) old
      then new @ replace_from old new (drop (length old) (c # cs))
      else c # replace_from old new cs)"
  by (subst replace_from.simps) simp

lemma remove_markers_Nil: "remove_markers [] = []"
  by (simp add: remove_markers.simps)

lemma remove_markers_Cons:
  "remove_markers (c # cs) =
     (if startswith (c # cs) BLUE then remove_markers (drop (length BLUE) (c # cs))
      else if startswith (c # cs) GREEN then remove_markers (drop (length GREEN) (c # cs))
      else if startswith (c # cs) WHITE then remove_markers (drop (length WHITE) (c # cs))
      else c # remove_markers cs)"
  by (subst remove_markers.simps) simp

lemmas marker_defs = BLUE_def GREEN_def WHITE_def

lemma replace_char:
  assumes "c \<noteq> ESC" and "m = BLUE \<or> m = GREEN \<or> m = WHITE"
  shows "replace (c # s) m [] = c # replace s m []"
  using assms by (auto simp: replace_def replace_from_Cons startswith_def marker_defs)

lemma replace_marker:
  assumes "m = BLUE \<or> m = GREEN \<or> m = WHITE" and "m' = BLUE \<or> m' = GREEN \<or> m' = WHITE"
  shows "replace (m' @ s) m [] = (if m' = m then [] else m') @ replace s m []"
  using assms by (auto simp: replace_def replace_from_Cons startswith_def marker_defs ESC_def)

lemma marker_distinct:
  "BLUE \<noteq> GREEN" "BLUE \<noteq> WHITE" "GREEN \<noteq> WHITE"
  "GREEN \<noteq> BLUE" "WHITE \<noteq> BLUE" "WHITE \<noteq> GREEN"
  by (simp_all add: marker_defs)

lemma strip_colors_char: "c \<noteq> ESC \<Longrightarrow> strip_colors (c # s) = c # strip_colors s"
  by (simp add: strip_colors_def replace_char)

lemma strip_colors_marker:
  "m = BLUE \<or> m = GREEN \<or> m = WHITE \<Longrightarrow> strip_colors (m @ s) = strip_colors s"
  unfolding strip_colors_def
  by (elim disjE) (simp_all add: replace_marker marker_distinct)

lemma remove_markers_char: "c \<noteq> ESC \<Longrightarrow> remove_markers (c # s) = c # remove_markers s"
  by (simp add: remove_markers_Cons startswith_def marker_defs)

lemma remove_markers_marker:
  "m = BLUE \<or> m = GREEN \<or> m = WHITE \<Longrightarrow> remove_markers (m @ s) = remove_markers s"
  by (elim disjE) (simp_all add: marker_defs remove_markers_Cons startswith_def ESC_def)

lemma strip_colors_Nil: "strip_colors [] = []"
  by (simp add: strip_colors_def replace_def replace_from_Nil marker_defs)

lemma strip_colors_well_marked: "well_marked s \<Longrightarrow> strip_colors s = remove_markers s"
  by (induction rule: well_marked.induct)
    (simp_all add: strip_colors_Nil remove_markers_Nil strip_colors_char remove_markers_char
      strip_colors_marker remove_markers_marker)

lemma well_marked_append: "well_marked s \<Longrightarrow> well_marked t \<Longrightarrow> well_marked (s @ t)"
proof (induction rule: well_marked.induct)
  case wm_Nil
  then show ?case by simp
next
  case (wm_char c s)
  then show ?case by (simp add: well_marked.wm_char)
next
  case (wm_marker m s)
  from wm_marker have "well_marked (s @ t)" by simp
  with wm_marker(1) have "well_marked (m @ (s @ t))"
    by (rule well_marked.wm_marker)
  then show ?case by simp
qed

lemma well_marked_plain: "ESC \<notin> set s \<Longrightarrow> well_marked s"
  by (induction s) (auto intro: well_marked.intros)

lemma well_marked_markers: "well_marked BLUE" "well_marked GREEN" "well_marked WHITE"
  using wm_marker [of BLUE "[]"] wm_marker [of GREEN "[]"] wm_marker [of WHITE "[]"]
  by (simp_all add: wm_Nil)

lemma well_marked_glyphs:
  "well_marked FORK_STRING" "well_marked CORNER_STRING" "well_marked WALL_STRING"
  "well_marked SPACE_STRING"
  by (simp_all add: FORK_STRING_def CORNER_STRING_def WALL_STRING_def SPACE_STRING_def
      well_marked_append well_marked_markers well_marked_plain ESC_def)

lemma remove_markers_append:
  "well_marked s \<Longrightarrow> remove_markers (s @ t) = remove_markers s @ remove_markers t"
  by (induction rule: well_marked.induct)
    (simp_all add: remove_markers_Nil remove_markers_char remove_markers_marker)

lemma digit_char_plain: "d < 10 \<Longrightarrow> digit_char d \<noteq> ESC"
proof -
  assume "d < 10"
  then have "digit_char d \<in> set ''0123456789''"
    unfolding digit_char_def by (intro nth_mem) simp
  then show ?thesis by (auto simp: ESC_def)
qed

lemma str_nat_plain: "ESC \<notin> set (str_nat n)"
proof (induction n rule: str_nat.induct)
  case (1 n)
  show ?case
  proof (cases "n < 10")
    case True
    then show ?thesis by (simp add: str_nat.simps [of n] digit_char_plain [symmetric])
  next
    case False
    moreover have "digit_char (n mod 10) \<noteq> ESC"
      by (rule digit_char_plain) simp
    ultimately show ?thesis
      using 1 by (simp add: str_nat.simps [of n])
  qed
qed

lemma get_size_plain: "ESC \<notin> set (get_size n)"
  by (simp add: get_size_def format_1f_def str_int_def Let_def str_nat_plain [unfolded ESC_def] ESC_def)

lemma entry_line_parts:
  "entry_line pf self prefix connector entry =
     (if is_dir entry then
        prefix @ connector @ '' '' @ BLUE @ name entry @ ''/'' @
        (if show_modified_time self \<and> strftime pf (st_mtime entry) \<noteq> []
         then annotation ''[Modified: '' (strftime pf (st_mtime entry)) else []) @
        (if show_size self then annotation ''[Size: '' (get_directory_size entry) else [])
      else
        prefix @ connector @ '' '' @ GREEN @ name entry @
        (if show_modified_time self
         then annotation ''[Modified: '' (strftime pf (st_mtime entry)) else []) @
        (if show_size self \<and> is_file entry
         then annotation ''[Size: '' (get_size (st_size entry)) else []))"
  by (simp add: entry_line_def Let_def annotation_def get_directory_size_def get_size_nonempty)

lemma root_line_parts:
  "root_line pf self root =
     BLUE @ path_name (path self) @ ''/'' @
     (if show_modified_time self \<and> strftime pf (st_mtime root) \<noteq> []
      then annotation ''[Modified: '' (strftime pf (st_mtime root)) else []) @
     (if show_size self then annotation ''[Size: '' (get_directory_size root) else [])"
  by (simp add: root_line_def Let_def annotation_def get_directory_size_def get_size_nonempty)

lemma well_marked_annotation:
  assumes "ESC \<notin> set label" and "ESC \<notin> set body"
  shows "well_marked (annotation label body)"
  unfolding annotation_def using assms
  by (intro well_marked_append well_marked_markers well_marked_plain) (simp_all add: ESC_def)

lemma well_marked_if: "(c \<Longrightarrow> well_marked s) \<Longrightarrow> well_marked (if c then s else [])"
  by (simp add: wm_Nil)

lemma entry_line_well_marked:
  assumes "well_marked prefix" and "well_marked connector"
    and "ESC \<notin> set (name entry)" and "\<And>t. ESC \<notin> set (strftime pf t)"
  shows "well_marked (entry_line pf self prefix connector entry)"
proof -
  have m: "well_marked (annotation ''[Modified: '' (strftime pf (st_mtime entry)))"
    by (rule well_marked_annotation) (simp_all add: ESC_def assms(4) [unfolded ESC_def])
  have s1: "well_marked (annotation ''[Size: '' (get_directory_size entry))"
    by (rule well_marked_annotation)
      (simp_all add: ESC_def get_directory_size_def get_size_plain [unfolded ESC_def])
  have s2: "well_marked (annotation ''[Size: '' (get_size (st_size entry)))"
    by (rule well_marked_annotation) (simp_all add: ESC_def get_size_plain [unfolded ESC_def])
  have sp: "well_marked '' ''" "well_marked ''/''"
    by (rule well_marked_plain, simp add: ESC_def)+
  have nm: "well_marked (name entry)"
    using assms(3) by (rule well_marked_plain)
  show ?thesis
  proof (cases "is_dir entry")
    case True
    then show ?thesis
      unfolding entry_line_parts
      by (simp only: if_True)
        (intro well_marked_append well_marked_if assms(1,2) sp nm m s1 well_marked_markers)
  next
    case False
    then show ?thesis
      unfolding entry_line_parts
      by (simp only: if_False)
        (intro well_marked_append well_marked_if assms(1,2) sp nm m s2 well_marked_markers)
  qed
qed

lemma root_line_well_marked:
  assumes "ESC \<notin> set (path_name (path self))" and "\<And>t. ESC \<notin> set (strftime pf t)"
  shows "well_marked (root_line pf self root)"
proof -
  have m: "well_marked (annotation ''[Modified: '' (strftime pf (st_mtime root)))"
    by (rule well_marked_annotation) (simp_all add: ESC_def assms(2) [unfolded ESC_def])
  have s1: "well_marked (annotation ''[Size: '' (get_directory_size root))"
    by (rule well_marked_annotation)
      (simp_all add: ESC_def get_directory_size_def get_size_plain [unfolded ESC_def])
  have sp: "well_marked ''/''"
    by (rule well_marked_plain) (simp add: ESC_def)
  have nm: "well_marked (path_name (path self))"
    using assms(1) by (rule well_marked_plain)
  show ?thesis
    unfolding root_line_parts
    by (intro well_marked_append well_marked_if sp nm m s1 well_marked_markers)
qed

lemma rglob_member:
  "x \<in> set entries \<Longrightarrow> e \<in> set (x # rglob x) \<Longrightarrow> e \<in> set (rglob (Dir nm mt sz entries))"
  by auto

lemma tree_structure_well_marked:
  "\<forall>t. ESC \<notin> set (strftime pf t) \<Longrightarrow> well_marked prefix \<Longrightarrow> \<forall>e \<in> set (rglob (Dir nm mt sz iterdir)). ESC \<notin> set (name e) \<Longrightarrow>
    l \<in> set (tree_structure pf self iterdir prefix) \<Longrightarrow> well_marked l"
proof (induction pf self iterdir prefix arbitrary: l nm mt sz rule: tree_structure.induct)
  case (1 pf self iterdir prefix)
  define entries where "entries = filter_entries pf self iterdir"
  from "1.prems"(4) obtain i entry where ie: "(i, entry) \<in> set (enumerate 0 entries)"
    and l: "l = entry_line pf self prefix
          (if i = length entries - 1 then CORNER_STRING else FORK_STRING) entry \<or>
        (\<exists>nm mt sz sub. entry = Dir nm mt sz sub \<and>
           l \<in> set (tree_structure pf self sub
               (prefix @ (if i = length entries - 1 then SPACE_STRING else WALL_STRING))))"
    unfolding tree_structure_unfold [of pf self iterdir prefix] entries_def
    by (auto split: node.splits)
  have "entry \<in> set entries"
    using ie by (auto simp: in_set_enumerate_eq)
  then have mem: "entry \<in> set iterdir"
    unfolding entries_def set_filter_entries by simp
  from l show ?case
  proof
    assume eq: "l = entry_line pf self prefix
          (if i = length entries - 1 then CORNER_STRING else FORK_STRING) entry"
    have "entry \<in> set (rglob (Dir nm mt sz iterdir))"
      by (rule rglob_member [OF mem]) simp
    with "1.prems"(3) have "ESC \<notin> set (name entry)"
      by blast
    then show ?thesis
      unfolding eq using "1.prems"(1,2)
      by (intro entry_line_well_marked) (simp_all add: well_marked_glyphs)
  next
    assume "\<exists>nm mt sz sub. entry = Dir nm mt sz sub \<and>
           l \<in> set (tree_structure pf self sub
               (prefix @ (if i = length entries - 1 then SPACE_STRING else WALL_STRING)))"
    then obtain nm' mt' sz' sub where e: "entry = Dir nm' mt' sz' sub"
      and l: "l \<in> set (tree_structure pf self sub
               (prefix @ (if i = length entries - 1 then SPACE_STRING else WALL_STRING)))"
      by blast
    have p: "well_marked (prefix @ (if i = length entries - 1 then SPACE_STRING else WALL_STRING))"
      using "1.prems"(2) by (simp add: well_marked_append well_marked_glyphs)
    have "\<forall>x \<in> set (rglob (Dir nm' mt' sz' sub)). ESC \<notin> set (name x)"
    proof
      fix x
      assume "x \<in> set (rglob (Dir nm' mt' sz' sub))"
      then have "x \<in> set (entry # rglob entry)"
        unfolding e by simp
      then have "x \<in> set (rglob (Dir nm mt sz iterdir))"
        by (rule rglob_member [OF mem])
      with "1.prems"(3) show "ESC \<notin> set (name x)" by blast
    qed
    with "1.IH" [OF entries_def ie refl refl e "1.prems"(1) p _ l] show ?thesis
      by blast
  qed
qed

lemma join_well_marked:
  "\<forall>l \<in> set ls. well_marked l \<Longrightarrow> well_marked (join [CHR 0x0A] ls)"
proof (induction "[CHR 0x0A]" ls rule: join.induct)
  case 1
  show ?case by (simp add: wm_Nil)
next
  case (2 x)
  then show ?case by simp
next
  case (3 x y ys)
  have "well_marked [CHR 0x0A]"
    by (rule well_marked_plain) (simp add: ESC_def)
  moreover have "well_marked x" and "well_marked (join [CHR 0x0A] (y # ys))"
    using 3 by simp_all
  ultimately have "well_marked (x @ [CHR 0x0A] @ join [CHR 0x0A] (y # ys))"
    by (intro well_marked_append)
  then show ?case by simp
qed

lemma remove_markers_join:
  "\<forall>l \<in> set ls. well_marked l \<Longrightarrow>
     remove_markers (join [CHR 0x0A] ls) = join [CHR 0x0A] (map remove_markers ls)"
proof (induction "[CHR 0x0A]" ls rule: join.induct)
  case 1
  show ?case by (simp add: remove_markers_Nil)
next
  case (2 x)
  show ?case by simp
next
  case (3 x y ys)
  have "remove_markers (CHR 0x0A # join [CHR 0x0A] (y # ys))
      = CHR 0x0A # remove_markers (join [CHR 0x0A] (y # ys))"
    by (rule remove_markers_char) (simp add: ESC_def)
  moreover have "well_marked x"
    and "remove_markers (join [CHR 0x0A] (y # ys)) = join [CHR 0x0A] (map remove_markers (y # ys))"
    using 3 by simp_all
  ultimately show ?case
    by (simp add: remove_markers_append)
qed

lemma draw_output_well_marked:
  assumes "ESC \<notin> set (path_name (path self))"
    and "\<forall>e \<in> set (rglob (Dir nm mt sz iterdir)). ESC \<notin> set (name e)"
    and "\<forall>t. ESC \<notin> set (strftime pf t)"
  shows "\<forall>l \<in> set (root_line pf self (Dir nm mt sz iterdir) # tree_structure pf self iterdir []).
           well_marked l"
  using assms root_line_well_marked [of self pf "Dir nm mt sz iterdir"]
    tree_structure_well_marked [of pf "[]" nm mt sz iterdir _ self]
  by (auto simp: wm_Nil)

text \<open>
  Claim C9, as amended. A call of \<open>draw\<close> with a save destination that succeeds writes,
  to \<^verbatim>\<open>tree_structure.txt\<close> in that destination, the styled output after the three chained
  replacements: all occurrences of the blue marker removed, then all of the green marker
  from the result, then all of the white marker. When neither the final component of the
  root path, nor the name of any entry beneath the root, nor a formatted time contains the
  escape character, this is the styled output with every marker removed and nothing else
  changed: the lines of the file are the lines of the output, in their order, each without
  its markers.
\<close>

theorem export_property:
  assumes "lookup w (path self) = Some (Dir nm mt sz iterdir)"
    and "can_open w (joinpath sp ''tree_structure.txt'')"
  shows "fst (draw pf self as_string (Some sp) w)
           = Inr (if as_string then draw_output pf self (Dir nm mt sz iterdir) else [])
       \<and> files (snd (draw pf self as_string (Some sp) w)) (joinpath sp ''tree_structure.txt'')
           = Some (strip_colors (draw_output pf self (Dir nm mt sz iterdir)))
       \<and> (ESC \<notin> set (path_name (path self)) \<and>
          (\<forall>e \<in> set (rglob (Dir nm mt sz iterdir)). ESC \<notin> set (name e)) \<and>
          (\<forall>t. ESC \<notin> set (strftime pf t)) \<longrightarrow>
            files (snd (draw pf self as_string (Some sp) w)) (joinpath sp ''tree_structure.txt'')
              = Some (remove_markers (draw_output pf self (Dir nm mt sz iterdir))) \<and>
            remove_markers (draw_output pf self (Dir nm mt sz iterdir))
              = join [CHR 0x0A] (map remove_markers
                  (root_line pf self (Dir nm mt sz iterdir) # tree_structure pf self iterdir [])))"
proof -
  have out: "draw_output pf self (Dir nm mt sz iterdir)
      = join [CHR 0x0A] (root_line pf self (Dir nm mt sz iterdir) # tree_structure pf self iterdir [])"
    by (simp add: draw_output_def)
  have ret: "fst (draw pf self as_string (Some sp) w)
           = Inr (if as_string then draw_output pf self (Dir nm mt sz iterdir) else [])"
    using assms by (simp add: draw_def finish_def Let_def)
  have written: "files (snd (draw pf self as_string (Some sp) w)) (joinpath sp ''tree_structure.txt'')
           = Some (strip_colors (draw_output pf self (Dir nm mt sz iterdir)))"
    using assms by (simp add: draw_def finish_def Let_def)
  have "files (snd (draw pf self as_string (Some sp) w)) (joinpath sp ''tree_structure.txt'')
              = Some (remove_markers (draw_output pf self (Dir nm mt sz iterdir))) \<and>
            remove_markers (draw_output pf self (Dir nm mt sz iterdir))
              = join [CHR 0x0A] (map remove_markers
                  (root_line pf self (Dir nm mt sz iterdir) # tree_structure pf self iterdir []))"
    if plain: "ESC \<notin> set (path_name (path self)) \<and>
          (\<forall>e \<in> set (rglob (Dir nm mt sz iterdir)). ESC \<notin> set (name e)) \<and>
          (\<forall>t. ESC \<notin> set (strftime pf t))"
  proof -
    have wm: "\<forall>l \<in> set (root_line pf self (Dir nm mt sz iterdir) # tree_structure pf self iterdir []).
           well_marked l"
      using plain by (intro draw_output_well_marked) blast+
    have "well_marked (draw_output pf self (Dir nm mt sz iterdir))"
      unfolding out using wm by (rule join_well_marked)
    then have "strip_colors (draw_output pf self (Dir nm mt sz iterdir))
        = remove_markers (draw_output pf self (Dir nm mt sz iterdir))"
      by (rule strip_colors_well_marked)
    moreover have "remove_markers (draw_output pf self (Dir nm mt sz iterdir))
           = join [CHR 0x0A] (map remove_markers
               (root_line pf self (Dir nm mt sz iterdir) # tree_structure pf self iterdir []))"
      unfolding out using wm by (rule remove_markers_join)
    ultimately show ?thesis
      using written by simp
  qed
  with ret written show ?thesis by blast
qed

text \<open>
  Without that condition the claim fails. A file name may hold the pieces of a marker
  around another marker: once the inner marker is removed, the pieces meet and the next
  replacement removes them too, although they were no marker in the styled output.
\<close>

lemma draw_output_escaped:
  "draw_output posix escaped (Dir ''odd'' 0 4096 [File (ESC # ''[3'' @ BLUE @ ''2m'') 0 1])
     = BLUE @ ''odd/'' @ [CHR 0x0A] @ CORNER_STRING @ '' '' @ GREEN @ ESC # ''[3'' @ BLUE @ ''2m''"
proof -
  have "filter_entries posix escaped [File (ESC # ''[3'' @ BLUE @ ''2m'') 0 1]
      = [File (ESC # ''[3'' @ BLUE @ ''2m'') 0 1]"
    by (simp add: filter_entries_def escaped_def init_def is_ignored_def is_hidden_def
        startswith_def ESC_def)
  then have "tree_structure posix escaped [File (ESC # ''[3'' @ BLUE @ ''2m'') 0 1] []
      = [CORNER_STRING @ '' '' @ GREEN @ ESC # ''[3'' @ BLUE @ ''2m'']"
    by (simp add: tree_structure_unfold entry_line_def escaped_def init_def)
  moreover have "root_line posix escaped (Dir ''odd'' 0 4096 [File (ESC # ''[3'' @ BLUE @ ''2m'') 0 1])
      = BLUE @ ''odd/''"
    by (simp add: root_line_def escaped_def init_def path_name_def)
  ultimately show ?thesis
    by (simp add: draw_output_def)
qed

lemmas scan_simps = replace_def replace_from_Nil replace_from_Cons remove_markers_Nil
  remove_markers_Cons startswith_def marker_defs CORNER_STRING_def ESC_def

lemma strip_colors_escaped:
  "strip_colors (BLUE @ ''odd/'' @ [CHR 0x0A] @ CORNER_STRING @ '' '' @ GREEN @ ESC # ''[3'' @ BLUE @ ''2m'')
     = ''odd/'' @ [CHR 0x0A] @
       [CHR 0xE2, CHR 0x94, CHR 0x94, CHR 0xE2, CHR 0x94, CHR 0x80, CHR 0xE2, CHR 0x94, CHR 0x80] @ '' ''"
  by (simp add: strip_colors_def scan_simps)

lemma remove_markers_escaped:
  "remove_markers (BLUE @ ''odd/'' @ [CHR 0x0A] @ CORNER_STRING @ '' '' @ GREEN @ ESC # ''[3'' @ BLUE @ ''2m'')
     = ''odd/'' @ [CHR 0x0A] @
       [CHR 0xE2, CHR 0x94, CHR 0x94, CHR 0xE2, CHR 0x94, CHR 0x80, CHR 0xE2, CHR 0x94, CHR 0x80] @ '' '' @
       ESC # ''[32m''"
  by (simp add: scan_simps)

theorem export_counterexample:
  "fst (draw posix escaped True (Some (Path [] [''out''])) disk)
     = Inr (BLUE @ ''odd/'' @ [CHR 0x0A] @ CORNER_STRING @ '' '' @ GREEN @ ESC # ''[3'' @ BLUE @ ''2m'')
   \<and> files (snd (draw posix escaped True (Some (Path [] [''out''])) disk))
        (Path [] [''out'', ''tree_structure.txt''])
     = Some (''odd/'' @ [CHR 0x0A] @
         [CHR 0xE2, CHR 0x94, CHR 0x94, CHR 0xE2, CHR 0x94, CHR 0x80, CHR 0xE2, CHR 0x94, CHR 0x80] @ '' '')
   \<and> remove_markers
        (BLUE @ ''odd/'' @ [CHR 0x0A] @ CORNER_STRING @ '' '' @ GREEN @ ESC # ''[3'' @ BLUE @ ''2m'')
     = ''odd/'' @ [CHR 0x0A] @
       [CHR 0xE2, CHR 0x94, CHR 0x94, CHR 0xE2, CHR 0x94, CHR 0x80, CHR 0xE2, CHR 0x94, CHR 0x80] @ '' '' @
       ESC # ''[32m''
   \<and> files (snd (draw posix escaped True (Some (Path [] [''out''])) disk))
        (Path [] [''out'', ''tree_structure.txt''])
     \<noteq> Some (remove_markers
         (BLUE @ ''odd/'' @ [CHR 0x0A] @ CORNER_STRING @ '' '' @ GREEN @ ESC # ''[3'' @ BLUE @ ''2m''))"
proof -
  have l: "lookup disk (path escaped) = Some (Dir ''odd'' 0 4096 [File (ESC # ''[3'' @ BLUE @ ''2m'') 0 1])"
    by (simp add: disk_def escaped_def init_def)
  have c: "can_open disk (joinpath (Path [] [''out'']) ''tree_structure.txt'')"
    by (simp add: disk_def)
  have j: "joinpath (Path [] [''out'']) ''tree_structure.txt'' = Path [] [''out'', ''tree_structure.txt'']"
    by (simp add: joinpath_def)
  have "fst (draw posix escaped True (Some (Path [] [''out''])) disk)
     = Inr (BLUE @ ''odd/'' @ [CHR 0x0A] @ CORNER_STRING @ '' '' @ GREEN @ ESC # ''[3'' @ BLUE @ ''2m'')"
    unfolding draw_def l using c
    by (simp add: finish_def Let_def draw_output_escaped del: append.simps append_assoc)
  moreover have "files (snd (draw posix escaped True (Some (Path [] [''out''])) disk))
        (Path [] [''out'', ''tree_structure.txt''])
     = Some (''odd/'' @ [CHR 0x0A] @
         [CHR 0xE2, CHR 0x94, CHR 0x94, CHR 0xE2, CHR 0x94, CHR 0x80, CHR 0xE2, CHR 0x94, CHR 0x80] @ '' '')"
    unfolding draw_def l using c
    by (simp add: finish_def Let_def draw_output_escaped strip_colors_escaped j
        del: append.simps append_assoc)
  ultimately show ?thesis
    by (simp only: remove_markers_escaped) simp
qed

lemma rglob_project:
  "\<forall>e \<in> set (rglob (Dir ''proj'' 0 4096 project)). ESC \<notin> set (name e)"
  by (simp add: project_def ESC_def)

theorem export_property_witness:
  "lookup disk (path plain) = Some (Dir ''proj'' 0 4096 project) \<and>
   can_open disk (joinpath (Path [] [''out'']) ''tree_structure.txt'') \<and>
   ESC \<notin> set (path_name (path plain)) \<and>
   ESC \<notin> set (concat (map name (rglob (Dir ''proj'' 0 4096 project)))) \<and>
   (\<forall>t. ESC \<notin> set (strftime posix t)) \<and>
   files (snd (draw posix plain True (Some (Path [] [''out''])) disk))
     (joinpath (Path [] [''out'']) ''tree_structure.txt'')
   = Some (remove_markers (draw_output posix plain (Dir ''proj'' 0 4096 project)))"
proof -
  have l: "lookup disk (path plain) = Some (Dir ''proj'' 0 4096 project)"
    by (simp add: disk_def plain_def init_def)
  have c: "can_open disk (joinpath (Path [] [''out'']) ''tree_structure.txt'')"
    by (simp add: disk_def)
  have n: "ESC \<notin> set (path_name (path plain))"
    by (simp add: plain_def init_def path_name_def ESC_def)
  have t: "\<forall>t. ESC \<notin> set (strftime posix t)"
    by (simp add: posix_def ESC_def)
  have r: "ESC \<notin> set (concat (map name (rglob (Dir ''proj'' 0 4096 project))))"
    using rglob_project by auto
  from export_property [OF l c, of posix True] l c n rglob_project t r
  show ?thesis by blast
qed

end
